theory Spec2Isabelle
  imports Main "HOL-Library.Word" "HOL-Library.Sublist"
begin

section \<open>Strings and paths\<close>

text \<open>
  The program is JavaScript: a string is a sequence of 16-bit code units, so the
  byte-order mark U+FEFF is one element of it. Paths are strings.
\<close>

type_synonym ustring = "16 word list"
type_synonym path = ustring

definition js :: "string \<Rightarrow> ustring" where
  "js s = map of_char s"

definition NL :: "16 word" where
  "NL = 0x0A"

definition BOM :: "16 word" where
  "BOM = 0xFEFF"

text \<open>\<^verbatim>\<open>xs.join('\n')\<close>: the empty array gives the empty string.\<close>

fun join_nl :: "ustring list \<Rightarrow> ustring" where
  "join_nl [] = []"
| "join_nl [x] = x"
| "join_nl (x # y # ys) = x @ NL # join_nl (y # ys)"

text \<open>
  \<^verbatim>\<open>s.replace(re, '')\<close> where \<^verbatim>\<open>re\<close> is the global pattern for U+FEFF after
  \<^verbatim>\<open>^\<close>: it is anchored at the start of the string
  (no multiline flag), so it matches at most once, at position 0.
\<close>

definition strip_bom :: "ustring \<Rightarrow> ustring" where
  "strip_bom s = (case s of [] \<Rightarrow> [] | c # cs \<Rightarrow> if c = BOM then cs else s)"

section \<open>Options\<close>

text \<open>The \<^verbatim>\<open>opts.compiler\<close> object built by \<^verbatim>\<open>cli\<close>, forwarded to the compiler.\<close>

record copts =
  compact :: bool
  template :: "ustring option"
  jstype :: "ustring option"
  brackets :: "ustring option"
  expr :: bool
  modular :: bool
  silent :: bool
  whitespace :: bool

text \<open>
  The option object \<^verbatim>\<open>opt\<close>. The fields \<^verbatim>\<open>from\<close>, \<^verbatim>\<open>to\<close>, \<^verbatim>\<open>ext\<close> and \<^verbatim>\<open>flow\<close>
  carry the prefix \<open>o_\<close> here.
\<close>

record opt =
  o_compiler :: copts
  o_ext :: ustring
  o_from :: path
  o_to :: path
  o_flow :: ustring

text \<open>\<^verbatim>\<open>opt.flow[0] == 'f'\<close> and \<^verbatim>\<open>opt.flow[1] == 'f'\<close>; an index past the end is
  \<^verbatim>\<open>undefined\<close>, which is not equal to \<^verbatim>\<open>'f'\<close>.\<close>

definition flow0_f :: "opt \<Rightarrow> bool" where
  "flow0_f opt = (0 < length (o_flow opt) \<and> o_flow opt ! 0 = of_char CHR ''f'')"

definition flow1_f :: "opt \<Rightarrow> bool" where
  "flow1_f opt = (1 < length (o_flow opt) \<and> o_flow opt ! 1 = of_char CHR ''f'')"

section \<open>The module wrapper\<close>

text \<open>The text \<^verbatim>\<open>encapsulate\<close> puts before the compiled text, line by line as the source
  appends it.\<close>

definition shim_head :: ustring where
  "shim_head =
     js ''(function(tagger) {'' @ [NL] @
     js ''  if (typeof define === 'function' && define.amd) {'' @ [NL] @
     js ''    define(function(require, exports, module) { tagger(require('riot'), require, exports, module)})'' @ [NL] @
     js ''  } else if (typeof module !== 'undefined' && typeof module.exports !== 'undefined') {'' @ [NL] @
     js ''    tagger(require('riot'), require, exports, module)'' @ [NL] @
     js ''  } else {'' @ [NL] @
     js ''    tagger(window.riot)'' @ [NL] @
     js ''  }'' @ [NL] @
     js ''})(function(riot, require, exports, module) {'' @ [NL]"

definition shim_tail :: ustring where
  "shim_tail = [NL] @ js ''});''"

definition encapsulate :: "opt \<Rightarrow> ustring \<Rightarrow> ustring" where
  "encapsulate opt from =
     (if \<not> modular (o_compiler opt) then from
      else shim_head @ from @ shim_tail)"

subsection \<open>Bracket matching\<close>

text \<open>
  A wrapper construct is opened by \<^verbatim>\<open>(\<close> or \<^verbatim>\<open>{\<close> and closed by the matching \<^verbatim>\<open>)\<close> or
  \<^verbatim>\<open>}\<close>. \<open>scan\<close> reads a text from left to right with the stack of constructs that are
  open, innermost first; it gives \<open>None\<close> when a closing bracket does not match the
  innermost open one.
\<close>

definition closer :: "16 word \<Rightarrow> 16 word option" where
  "closer c = (if c = of_char CHR ''('' then Some (of_char CHR '')'')
               else if c = of_char CHR ''{'' then Some (of_char CHR ''}'')
               else None)"

definition is_close :: "16 word \<Rightarrow> bool" where
  "is_close c = (c = of_char CHR '')'' \<or> c = of_char CHR ''}'')"

fun scan :: "ustring \<Rightarrow> 16 word list \<Rightarrow> 16 word list option" where
  "scan [] st = Some st"
| "scan (c # cs) st =
     (case closer c of
        Some d \<Rightarrow> scan cs (d # st)
      | None \<Rightarrow>
          if is_close c
          then (case st of [] \<Rightarrow> None | d # st' \<Rightarrow> if d = c then scan cs st' else None)
          else scan cs st)"

definition balanced :: "ustring \<Rightarrow> bool" where
  "balanced s = (scan s [] = Some [])"

section \<open>The world the build runs in\<close>

text \<open>
  The file system as the build sees it: the regular files with their text, the
  directories that exist, and the messages handed to \<^verbatim>\<open>log\<close>, oldest first.
\<close>

record world =
  files :: "path \<rightharpoonup> ustring"
  dirs :: "path set"
  logged :: "ustring list"

text \<open>
  What a statement can throw. \<open>CompileError\<close> carries the compiler's own error value;
  the others come from the file primitives and from using \<^verbatim>\<open>undefined\<close> as a path.
\<close>

datatype exn =
    CompileError ustring
  | NoSuchFile path
  | NoSuchDirectory path
  | UndefinedPath

datatype outcome = Done | Thrown exn

text \<open>
  The collaborators the build calls and that are not defined in \<^verbatim>\<open>lib/index.js\<close> as given:
  the tag compiler (\<open>Inl\<close> is the error it throws), the helper \<^verbatim>\<open>find\<close>, the path
  computation of the helper \<^verbatim>\<open>remap\<close> for one input, the helper \<^verbatim>\<open>toRelative\<close>, and
  \<^verbatim>\<open>dirname\<close> and \<^verbatim>\<open>join\<close> of the path library. They are parameters: every theorem
  holds for all of them.
\<close>

record env =
  compile :: "ustring \<Rightarrow> copts \<Rightarrow> ustring + ustring"
  find_tags :: "world \<Rightarrow> path \<Rightarrow> path list"
  remap_path :: "path \<Rightarrow> path \<Rightarrow> path \<Rightarrow> path"
  toRelative :: "path \<Rightarrow> ustring"
  ph_dirname :: "path \<Rightarrow> path"
  ph_join :: "path \<Rightarrow> path \<Rightarrow> path"

text \<open>
  Modelled from the spec: \<^verbatim>\<open>init\<close> is called first by every method and is not in
  \<^verbatim>\<open>lib/index.js\<close> as given. By the spec the flow is computed once per build spec and is
  immutable afterwards, and the options are never mutated by the core; the record \<open>opt\<close>
  is the option object with \<open>from\<close>, \<open>to\<close>, \<open>ext\<close> and \<open>flow\<close> set, which \<open>init\<close> leaves
  as it is.
\<close>

definition init :: "opt \<Rightarrow> opt" where
  "init opt = opt"

text \<open>
  Modelled from the spec: \<^verbatim>\<open>remap\<close> is not in \<^verbatim>\<open>lib/index.js\<close> as given. By the spec
  it gives, for each input path in order, the destination joined with the input's path
  relative to the base, with the extension replaced: one output path per input, computed
  from that input alone.
\<close>

definition remap :: "env \<Rightarrow> path list \<Rightarrow> path \<Rightarrow> path \<Rightarrow> path list" where
  "remap env from to base = map (remap_path env to base) from"

text \<open>
  Modelled from the spec: \<^verbatim>\<open>log\<close> is not in \<^verbatim>\<open>lib/index.js\<close> as given. By the spec a
  pass reports each pair for display; the model records the messages handed to \<^verbatim>\<open>log\<close>,
  in order.
\<close>

definition log :: "ustring \<Rightarrow> world \<Rightarrow> world" where
  "log msg w = w\<lparr>logged := logged w @ [msg]\<rparr>"

subsection \<open>File primitives\<close>

text \<open>\<^verbatim>\<open>sh.cat(file)\<close>: the text of the file, if there is one.\<close>

definition sh_cat :: "world \<Rightarrow> path \<Rightarrow> ustring option" where
  "sh_cat w file = files w file"

text \<open>
  \<open>parents dn n d\<close>: the directory \<open>d\<close> and the directories above it, found by taking
  \<^verbatim>\<open>dirname\<close> until it no longer changes. \<^verbatim>\<open>dirname\<close> shortens a path it changes, so
  the length of \<open>d\<close> bounds the number of steps.
\<close>

fun parents :: "(path \<Rightarrow> path) \<Rightarrow> nat \<Rightarrow> path \<Rightarrow> path list" where
  "parents dn 0 d = [d]"
| "parents dn (Suc n) d = (if dn d = d then [d] else d # parents dn n (dn d))"

text \<open>\<^verbatim>\<open>sh.mkdir('-p', ds)\<close>: every directory of \<open>ds\<close> exists afterwards, with the
  directories above it; directories that exist already are left alone.\<close>

definition sh_mkdir_p :: "env \<Rightarrow> path list \<Rightarrow> world \<Rightarrow> world" where
  "sh_mkdir_p env ds w =
     w\<lparr>dirs := dirs w \<union> (\<Union>d\<in>set ds. set (parents (ph_dirname env) (length d) d))\<rparr>"

text \<open>
  \<^verbatim>\<open>text.to(file)\<close>: the file holds the text afterwards, replacing what it held. The
  primitive refuses to write when the directory of the file does not exist; the refusal
  is an error value here, and the subsection on output directories shows when a pass
  meets it.
\<close>

definition sh_to :: "env \<Rightarrow> ustring \<Rightarrow> path \<Rightarrow> world \<Rightarrow> exn + world" where
  "sh_to env text file w =
     (if ph_dirname env file \<in> dirs w
      then Inr (w\<lparr>files := (files w)(file \<mapsto> text)\<rparr>)
      else Inl (NoSuchDirectory (ph_dirname env file)))"

text \<open>\<^verbatim>\<open>xs[i]\<close>: \<^verbatim>\<open>undefined\<close> past the end.\<close>

definition nth_opt :: "'a list \<Rightarrow> nat \<Rightarrow> 'a option" where
  "nth_opt xs i = (if i < length xs then Some (xs ! i) else None)"

text \<open>\<^verbatim>\<open>a || b\<close> on strings that may be \<^verbatim>\<open>undefined\<close>: \<^verbatim>\<open>undefined\<close> and the empty
  string are falsy.\<close>

definition js_or :: "ustring option \<Rightarrow> ustring option \<Rightarrow> ustring option" where
  "js_or a b = (case a of None \<Rightarrow> b | Some s \<Rightarrow> if s = [] then b else Some s)"

text \<open>
  \<^verbatim>\<open>var dirs = {}\<close>, then \<^verbatim>\<open>dirs[k] = 0\<close> for every \<open>k\<close> of the list, then
  \<^verbatim>\<open>Object.keys(dirs)\<close>. An assignment to the key \<^verbatim>\<open>__proto__\<close> of an object literal
  calls the setter it inherits, which ignores the number \<^verbatim>\<open>0\<close>: the object gets no such
  key. Every other key becomes a key of the object once, at its first assignment.
\<close>

definition proto_key :: ustring where
  "proto_key = js ''__proto__''"

fun own_keys :: "ustring list \<Rightarrow> ustring list" where
  "own_keys [] = []"
| "own_keys (k # ks) =
     (if k = proto_key then own_keys ks else k # filter (\<lambda>x. x \<noteq> k) (own_keys ks))"

text \<open>
  \<^verbatim>\<open>Object.keys\<close> lists the keys that are array indices first, in ascending order, and
  then the other keys in the order of their assignment. An array index is the decimal
  numeral, without leading zeros, of a number below \<open>2\<^sup>3\<^sup>2 - 1\<close>.
\<close>

definition is_digit :: "16 word \<Rightarrow> bool" where
  "is_digit c = (0x30 \<le> c \<and> c \<le> 0x39)"

definition digits_val :: "ustring \<Rightarrow> nat" where
  "digits_val k = foldl (\<lambda>n c. 10 * n + (unat c - 48)) 0 k"

definition array_index :: "ustring \<Rightarrow> nat option" where
  "array_index k =
     (if k \<noteq> [] \<and> list_all is_digit k \<and> (k = js ''0'' \<or> take 1 k \<noteq> js ''0'') \<and>
         digits_val k < 2 ^ 32 - 1
      then Some (digits_val k) else None)"

definition keys_of :: "ustring list \<Rightarrow> ustring list" where
  "keys_of ks =
     (let own = own_keys ks
      in sort_key (\<lambda>k. case array_index k of Some n \<Rightarrow> n | None \<Rightarrow> 0)
           (filter (\<lambda>k. array_index k \<noteq> None) own) @
         filter (\<lambda>k. array_index k = None) own)"

section \<open>\<^verbatim>\<open>make\<close>\<close>

text \<open>\<^verbatim>\<open>parse(from)\<close>: read, strip the byte-order mark, compile with \<^verbatim>\<open>opt.compiler\<close>.\<close>

definition parse :: "env \<Rightarrow> opt \<Rightarrow> path \<Rightarrow> world \<Rightarrow> exn + ustring" where
  "parse env opt from w =
     (case sh_cat w from of
        None \<Rightarrow> Inl (NoSuchFile from)
      | Some text \<Rightarrow>
          (case compile env (strip_bom text) (o_compiler opt) of
             Inl e \<Rightarrow> Inl (CompileError e)
           | Inr out \<Rightarrow> Inr out))"

text \<open>\<^verbatim>\<open>from.map(function (path) { return parse(path) })\<close>: left to right, the first
  throw ends it.\<close>

fun parse_all :: "env \<Rightarrow> opt \<Rightarrow> path list \<Rightarrow> world \<Rightarrow> exn + ustring list" where
  "parse_all env opt [] w = Inr []"
| "parse_all env opt (p # ps) w =
     (case parse env opt p w of
        Inl e \<Rightarrow> Inl e
      | Inr out \<Rightarrow>
          (case parse_all env opt ps w of
             Inl e \<Rightarrow> Inl e
           | Inr outs \<Rightarrow> Inr (out # outs)))"

definition toFile :: "env \<Rightarrow> opt \<Rightarrow> path list \<Rightarrow> path list \<Rightarrow> world \<Rightarrow> outcome \<times> world" where
  "toFile env opt from to w =
     (case parse_all env opt from w of
        Inl e \<Rightarrow> (Thrown e, w)
      | Inr outs \<Rightarrow>
          (case nth_opt to 0 of
             None \<Rightarrow> (Thrown UndefinedPath, w)
           | Some file \<Rightarrow>
               (case sh_to env (encapsulate opt (join_nl outs)) file w of
                  Inl e \<Rightarrow> (Thrown e, w)
                | Inr w' \<Rightarrow> (Done, w'))))"

text \<open>\<^verbatim>\<open>from.map(function(from, i) { encapsulate(parse(from)).to(to[i]) })\<close>: input
  \<open>i\<close> is read, compiled and written before input \<open>i + 1\<close> is read.\<close>

fun toDir_from :: "env \<Rightarrow> opt \<Rightarrow> path list \<Rightarrow> path list \<Rightarrow> nat \<Rightarrow> world \<Rightarrow> outcome \<times> world" where
  "toDir_from env opt [] to i w = (Done, w)"
| "toDir_from env opt (f # fs) to i w =
     (case parse env opt f w of
        Inl e \<Rightarrow> (Thrown e, w)
      | Inr out \<Rightarrow>
          (case nth_opt to i of
             None \<Rightarrow> (Thrown UndefinedPath, w)
           | Some file \<Rightarrow>
               (case sh_to env (encapsulate opt out) file w of
                  Inl e \<Rightarrow> (Thrown e, w)
                | Inr w' \<Rightarrow> toDir_from env opt fs to (Suc i) w')))"

definition toDir :: "env \<Rightarrow> opt \<Rightarrow> path list \<Rightarrow> path list \<Rightarrow> world \<Rightarrow> outcome \<times> world" where
  "toDir env opt from to w = toDir_from env opt from to 0 w"

text \<open>The line printed for input \<open>src\<close> with output \<open>out\<close>.\<close>

definition report_line :: "env \<Rightarrow> path \<Rightarrow> path \<Rightarrow> ustring" where
  "report_line env src out = toRelative env src @ js '' -> '' @ toRelative env out"

text \<open>\<^verbatim>\<open>from.map(function(src, i) { log(... (to[i] || to[0])) })\<close>\<close>

fun report_from :: "env \<Rightarrow> path list \<Rightarrow> path list \<Rightarrow> nat \<Rightarrow> world \<Rightarrow> outcome \<times> world" where
  "report_from env [] to i w = (Done, w)"
| "report_from env (src # rest) to i w =
     (case js_or (nth_opt to i) (nth_opt to 0) of
        None \<Rightarrow> (Thrown UndefinedPath, w)
      | Some out \<Rightarrow> report_from env rest to (Suc i) (log (report_line env src out) w))"

text \<open>The input files and the output files of a pass, as \<^verbatim>\<open>make\<close> computes them.\<close>

definition inputs :: "env \<Rightarrow> opt \<Rightarrow> world \<Rightarrow> path list" where
  "inputs env opt w = (if flow0_f opt then [o_from opt] else find_tags env w (o_from opt))"

definition base_of :: "env \<Rightarrow> opt \<Rightarrow> path" where
  "base_of env opt = (if flow0_f opt then ph_dirname env (o_from opt) else o_from opt)"

definition outputs :: "env \<Rightarrow> opt \<Rightarrow> world \<Rightarrow> path list" where
  "outputs env opt w =
     (if flow1_f opt then [o_to opt]
      else remap env (inputs env opt w) (o_to opt) (base_of env opt))"

definition make :: "env \<Rightarrow> opt \<Rightarrow> world \<Rightarrow> outcome \<times> world" where
  "make env opt0 w =
     (let opt = init opt0;
          from = inputs env opt w;
          to = outputs env opt w;
          w1 = sh_mkdir_p env (keys_of (map (ph_dirname env) to)) w
      in case (if flow1_f opt then toFile else toDir) env opt from to w1 of
           (Thrown e, w2) \<Rightarrow> (Thrown e, w2)
         | (Done, w2) \<Rightarrow>
             if \<not> silent (o_compiler opt) then report_from env from to 0 w2
             else (Done, w2))"

section \<open>\<^verbatim>\<open>watch\<close>\<close>

text \<open>
  What the file watcher sees, in the order it sees it: a path found by its initial scan
  of the glob, the end of that scan, and a change on the glob after it started.
\<close>

datatype fs_event = Scanned path | ScanDone | Changed path

text \<open>What the watcher emits to its listeners.\<close>

datatype emitted = OnReady | OnAll

text \<open>The watcher started with the option \<^verbatim>\<open>ignoreInitial\<close>: with it set, it emits
  nothing for the paths of the initial scan.\<close>

fun chokidar :: "bool \<Rightarrow> fs_event \<Rightarrow> emitted list" where
  "chokidar ignoreInitial (Scanned p) = (if ignoreInitial then [] else [OnAll])"
| "chokidar ignoreInitial ScanDone = [OnReady]"
| "chokidar ignoreInitial (Changed p) = [OnAll]"

definition glob_of :: "env \<Rightarrow> opt \<Rightarrow> path" where
  "glob_of env opt =
     (if flow0_f opt then o_from opt
      else ph_join env (o_from opt) (js ''**/*.'' @ o_ext opt))"

text \<open>The listeners \<^verbatim>\<open>watch\<close> registers, run on what is emitted, in order. A listener
  that throws ends the run.\<close>

fun listeners :: "env \<Rightarrow> opt \<Rightarrow> path \<Rightarrow> emitted list \<Rightarrow> world \<Rightarrow> outcome \<times> world" where
  "listeners env opt glob [] w = (Done, w)"
| "listeners env opt glob (OnReady # es) w =
     listeners env opt glob es (log (js ''Watching '' @ toRelative env glob) w)"
| "listeners env opt glob (OnAll # es) w =
     (case make env opt w of
        (Thrown e, w') \<Rightarrow> (Thrown e, w')
      | (Done, w') \<Rightarrow> listeners env opt glob es w')"

definition watch :: "env \<Rightarrow> opt \<Rightarrow> fs_event list \<Rightarrow> world \<Rightarrow> outcome \<times> world" where
  "watch env opt0 evs w =
     (let opt = init opt0
      in case make env opt w of
           (Thrown e, w') \<Rightarrow> (Thrown e, w')
         | (Done, w') \<Rightarrow>
             listeners env opt (glob_of env opt) (concat (map (chokidar True) evs)) w')"

section \<open>Notions used to state the properties\<close>

text \<open>The files after the writes \<open>kvs\<close> (path and text), done in order on \<open>m\<close>.\<close>

definition written :: "(path \<rightharpoonup> ustring) \<Rightarrow> (path \<times> ustring) list \<Rightarrow> (path \<rightharpoonup> ustring)" where
  "written m kvs = fold (\<lambda>(file, text) m'. m'(file \<mapsto> text)) kvs m"

text \<open>\<open>n\<close> build passes one after the other; a pass that throws ends the run.\<close>

fun rebuilds :: "env \<Rightarrow> opt \<Rightarrow> nat \<Rightarrow> world \<Rightarrow> outcome \<times> world" where
  "rebuilds env opt 0 w = (Done, w)"
| "rebuilds env opt (Suc n) w =
     (case make env opt w of
        (Thrown e, w') \<Rightarrow> (Thrown e, w')
      | (Done, w') \<Rightarrow> rebuilds env opt n w')"

section \<open>A concrete setting\<close>

text \<open>
  Simple collaborators, used to run the model on concrete inputs: a compiler that
  rejects the empty text and otherwise wraps the text in a call, a \<^verbatim>\<open>find\<close> that looks
  for \<^verbatim>\<open>a.tag\<close> and \<^verbatim>\<open>b.tag\<close> under the root, and string versions of the path
  functions.
\<close>

definition compile_ex :: "ustring \<Rightarrow> copts \<Rightarrow> ustring + ustring" where
  "compile_ex text c = (if text = [] then Inl (js ''empty'') else Inr (js ''t('' @ text @ js '')''))"

definition find_ex :: "world \<Rightarrow> path \<Rightarrow> path list" where
  "find_ex w root = filter (\<lambda>f. files w f \<noteq> None) [root @ js ''/a.tag'', root @ js ''/b.tag'']"

definition remap_path_ex :: "path \<Rightarrow> path \<Rightarrow> path \<Rightarrow> path" where
  "remap_path_ex to base from = to @ drop (length base) (take (length from - 3) from) @ js ''js''"

definition toRelative_ex :: "path \<Rightarrow> ustring" where
  "toRelative_ex p = (if take 1 p = js ''/'' then drop 1 p else p)"

definition dirname_ex :: "path \<Rightarrow> path" where
  "dirname_ex p =
     (let d = rev (drop 1 (dropWhile (\<lambda>c. c \<noteq> of_char CHR ''/'') (rev p)))
      in if d = [] then (if take 1 p = js ''/'' then js ''/'' else js ''.'') else d)"

definition join_ex :: "path \<Rightarrow> path \<Rightarrow> path" where
  "join_ex a b = a @ js ''/'' @ b"

definition env_ex :: env where
  "env_ex = \<lparr>compile = compile_ex, find_tags = find_ex, remap_path = remap_path_ex,
     toRelative = toRelative_ex, ph_dirname = dirname_ex, ph_join = join_ex\<rparr>"

definition copts_ex :: copts where
  "copts_ex = \<lparr>compact = False, template = None, jstype = None, brackets = None,
     expr = False, modular = False, silent = False, whitespace = False\<rparr>"

text \<open>The directory \<^verbatim>\<open>/s\<close> built into the one file \<^verbatim>\<open>/o/x.js\<close>, and into the
  directory \<^verbatim>\<open>/o\<close>.\<close>

definition opt_concat :: opt where
  "opt_concat = \<lparr>o_compiler = copts_ex, o_ext = js ''tag'', o_from = js ''/s'',
     o_to = js ''/o/x.js'', o_flow = js ''df''\<rparr>"

definition opt_mirror :: opt where
  "opt_mirror = \<lparr>o_compiler = copts_ex, o_ext = js ''tag'', o_from = js ''/s'',
     o_to = js ''/o'', o_flow = js ''dd''\<rparr>"

text \<open>The same with module packaging on.\<close>

definition opt_modular :: opt where
  "opt_modular = opt_concat\<lparr>o_compiler := copts_ex\<lparr>modular := True\<rparr>\<rparr>"

text \<open>Worlds: two tags that compile; a second tag that is empty, which the compiler
  rejects; no tag at all.\<close>

definition world_ok :: world where
  "world_ok = \<lparr>files = [js ''/s/a.tag'' \<mapsto> js ''<a/>'', js ''/s/b.tag'' \<mapsto> js ''<b/>''],
     dirs = {js ''/'', js ''/s''}, logged = []\<rparr>"

definition world_bad :: world where
  "world_bad = \<lparr>files = [js ''/s/a.tag'' \<mapsto> js ''<a/>'', js ''/s/b.tag'' \<mapsto> []],
     dirs = {js ''/'', js ''/s''}, logged = []\<rparr>"

definition world_empty :: world where
  "world_empty = \<lparr>files = Map.empty, dirs = {js ''/'', js ''/s''}, logged = []\<rparr>"

text \<open>The first tag saved with a byte-order mark.\<close>

definition world_bom :: world where
  "world_bom = \<lparr>files = [js ''/s/a.tag'' \<mapsto> BOM # js ''<a/>'', js ''/s/b.tag'' \<mapsto> js ''<b/>''],
     dirs = {js ''/'', js ''/s''}, logged = []\<rparr>"


section \<open>Properties\<close>

subsection \<open>The primitives and the steps of a pass\<close>

lemma files_mkdir: "files (sh_mkdir_p env ds w) = files w"
  by (simp add: sh_mkdir_p_def)

lemma logged_mkdir: "logged (sh_mkdir_p env ds w) = logged w"
  by (simp add: sh_mkdir_p_def)

lemma parents_self: "d \<in> set (parents dn n d)"
  by (cases n) simp_all

lemma set_own_keys: "set (own_keys ks) = set ks - {proto_key}"
  by (induction ks) auto

lemma set_keys_of: "set (keys_of ks) = set ks - {proto_key}"
  by (auto simp add: keys_of_def Let_def set_own_keys)

lemma keys_of_Nil: "keys_of [] = []"
  by (simp add: keys_of_def)


lemma dirs_mkdir_mem: "d \<in> set ds \<Longrightarrow> d \<in> dirs (sh_mkdir_p env ds w)"
  using parents_self by (fastforce simp add: sh_mkdir_p_def)

lemma dirs_mkdir_mono: "dirs w \<subseteq> dirs (sh_mkdir_p env ds w)"
  by (simp add: sh_mkdir_p_def)

lemma mkdir_idem: "sh_mkdir_p env ds (sh_mkdir_p env ds w) = sh_mkdir_p env ds w"
  by (simp add: sh_mkdir_p_def Un_assoc)

lemma parse_cong: "files w p = files w' p \<Longrightarrow> parse env opt p w = parse env opt p w'"
  by (simp add: parse_def sh_cat_def)

lemma parse_all_cong:
  "\<forall>p\<in>set ps. files w p = files w' p \<Longrightarrow> parse_all env opt ps w = parse_all env opt ps w'"
  by (induction ps) (simp_all add: parse_cong [of w _ w'] split: sum.splits)

lemma parse_all_Inr_D:
  "parse_all env opt ps w = Inr outs \<Longrightarrow> list_all2 (\<lambda>p out. parse env opt p w = Inr out) ps outs"
  by (induction ps arbitrary: outs) (auto split: sum.splits)

lemma parse_all_Inr_I:
  "list_all2 (\<lambda>p out. parse env opt p w = Inr out) ps outs \<Longrightarrow> parse_all env opt ps w = Inr outs"
  by (induction ps outs rule: list_all2_induct) simp_all

lemma parse_all_Inl:
  "p \<in> set ps \<Longrightarrow> parse env opt p w = Inl e \<Longrightarrow> \<exists>e'. parse_all env opt ps w = Inl e'"
  by (induction ps) (auto split: sum.splits)

lemma outputs_dirs_made:
  "proto_key \<notin> ph_dirname env ` set to \<Longrightarrow>
   \<forall>t\<in>set to. ph_dirname env t \<in> dirs (sh_mkdir_p env (keys_of (map (ph_dirname env) to)) w)"
  by (auto intro!: dirs_mkdir_mem simp add: set_keys_of)

lemma output_dir_made:
  "d \<noteq> proto_key \<Longrightarrow> d \<in> dirs (sh_mkdir_p env (keys_of [d]) w)"
  by (rule dirs_mkdir_mem) (simp add: set_keys_of)

lemma toFile_Done:
  assumes "list_all2 (\<lambda>p out. parse env opt p w = Inr out) from outs"
    and "ph_dirname env t \<in> dirs w"
  shows "toFile env opt from [t] w = (Done, w\<lparr>files := (files w)(t \<mapsto> encapsulate opt (join_nl outs))\<rparr>)"
proof -
  from assms(1) have "parse_all env opt from w = Inr outs"
    by (rule parse_all_Inr_I)
  with assms(2) show ?thesis
    by (simp add: toFile_def nth_opt_def sh_to_def)
qed

lemma toFile_Thrown:
  "parse_all env opt from w = Inl e \<Longrightarrow> toFile env opt from to w = (Thrown e, w)"
  by (simp add: toFile_def)

lemma parse_mkdir: "parse env opt p (sh_mkdir_p env ds w) = parse env opt p w"
  by (rule parse_cong) (simp add: files_mkdir)

lemma parse_all_mkdir: "parse_all env opt ps (sh_mkdir_p env ds w) = parse_all env opt ps w"
  by (rule parse_all_cong) (simp add: files_mkdir)

lemma js_or_single: "js_or (nth_opt [t] i) (nth_opt [t] 0) = Some t"
  by (cases i) (simp_all add: js_or_def nth_opt_def)

lemma report_from_single:
  "report_from env fs [t] i w = (Done, w\<lparr>logged := logged w @ map (\<lambda>src. report_line env src t) fs\<rparr>)"
  by (induction fs arbitrary: i w) (simp_all add: js_or_single log_def)

lemma report_from_mirrored:
  "[] \<notin> set (drop i to) \<Longrightarrow> i + length fs \<le> length to \<Longrightarrow>
   report_from env fs to i w =
     (Done, w\<lparr>logged := logged w @ map2 (report_line env) fs (drop i to)\<rparr>)"
proof (induction fs arbitrary: i w)
  case Nil
  then show ?case by simp
next
  case (Cons src rest)
  then have i: "i < length to" by simp
  then have d: "drop i to = to ! i # drop (Suc i) to"
    by (simp add: Cons_nth_drop_Suc)
  with Cons.prems(1) have ne: "to ! i \<noteq> []" and rest: "[] \<notin> set (drop (Suc i) to)"
    by auto
  from i ne have "js_or (nth_opt to i) (nth_opt to 0) = Some (to ! i)"
    by (simp add: js_or_def nth_opt_def)
  moreover from Cons.prems(2) have "Suc i + length rest \<le> length to" by simp
  ultimately show ?case
    using Cons.IH [OF rest, of "log (report_line env src (to ! i)) w"] d
    by (simp add: log_def)
qed

lemma report_from_world:
  "report_from env fs to i w = (r, w') \<Longrightarrow> files w' = files w \<and> dirs w' = dirs w"
  by (induction fs arbitrary: i w) (auto simp add: log_def split: option.splits)

lemma make_single:
  "flow1_f opt \<Longrightarrow>
   make env opt w =
     (case toFile env opt (inputs env opt w) [o_to opt] (sh_mkdir_p env (keys_of [ph_dirname env (o_to opt)]) w) of
        (Thrown e, w2) \<Rightarrow> (Thrown e, w2)
      | (Done, w2) \<Rightarrow>
          if \<not> silent (o_compiler opt) then report_from env (inputs env opt w) [o_to opt] 0 w2
          else (Done, w2))"
  by (simp add: make_def init_def outputs_def Let_def)

lemma make_mirrored:
  "\<not> flow1_f opt \<Longrightarrow>
   make env opt w =
     (case toDir env opt (inputs env opt w) (outputs env opt w)
             (sh_mkdir_p env (keys_of (map (ph_dirname env) (outputs env opt w))) w) of
        (Thrown e, w2) \<Rightarrow> (Thrown e, w2)
      | (Done, w2) \<Rightarrow>
          if \<not> silent (o_compiler opt) then report_from env (inputs env opt w) (outputs env opt w) 0 w2
          else (Done, w2))"
  by (simp add: make_def init_def Let_def)

subsection \<open>Writing into a directory\<close>

lemma written_Cons: "written m ((k, v) # kvs) = written (m(k \<mapsto> v)) kvs"
  by (simp add: written_def)

lemma written_Nil: "written m [] = m"
  by (simp add: written_def)

lemma sh_to_world:
  "sh_to env text file w = Inr w' \<Longrightarrow>
     w' = w\<lparr>files := (files w)(file \<mapsto> text)\<rparr> \<and> ph_dirname env file \<in> dirs w"
  by (auto simp add: sh_to_def split: if_splits)

lemma toDir_from_Done_D:
  "toDir_from env opt fs to i w = (Done, w') \<Longrightarrow> set (drop i to) \<inter> set fs = {} \<Longrightarrow>
   \<exists>outs. list_all2 (\<lambda>p out. parse env opt p w = Inr out) fs outs \<and>
     w' = w\<lparr>files := written (files w) (zip (drop i to) (map (encapsulate opt) outs))\<rparr>"
proof (induction fs arbitrary: i w)
  case Nil
  then show ?case by (simp add: written_Nil)
next
  case (Cons f fs)
  from Cons.prems(1) obtain out w1 where
    p: "parse env opt f w = Inr out" and i: "i < length to" and
    s: "sh_to env (encapsulate opt out) (to ! i) w = Inr w1" and
    r: "toDir_from env opt fs to (Suc i) w1 = (Done, w')"
    by (auto simp add: nth_opt_def split: sum.splits option.splits if_splits)
  from i have d: "drop i to = to ! i # drop (Suc i) to"
    by (simp add: Cons_nth_drop_Suc)
  from s have w1: "w1 = w\<lparr>files := (files w)(to ! i \<mapsto> encapsulate opt out)\<rparr>"
    by (simp add: sh_to_world)
  from Cons.prems(2) d have disj: "set (drop (Suc i) to) \<inter> set fs = {}" and ni: "to ! i \<notin> set fs"
    by auto
  from Cons.IH [OF r disj] obtain outs where
    a: "list_all2 (\<lambda>p out. parse env opt p w1 = Inr out) fs outs" and
    w': "w' = w1\<lparr>files := written (files w1) (zip (drop (Suc i) to) (map (encapsulate opt) outs))\<rparr>"
    by blast
  have "\<And>p. p \<in> set fs \<Longrightarrow> parse env opt p w1 = parse env opt p w"
    using ni by (intro parse_cong) (auto simp add: w1)
  with a have "list_all2 (\<lambda>p out. parse env opt p w = Inr out) fs outs"
    by (auto elim!: list.rel_mono_strong)
  with p have "list_all2 (\<lambda>p out. parse env opt p w = Inr out) (f # fs) (out # outs)"
    by simp
  moreover have "w' = w\<lparr>files := written (files w) (zip (drop i to) (map (encapsulate opt) (out # outs)))\<rparr>"
    by (simp add: w' w1 d written_Cons)
  ultimately show ?case by blast
qed

lemma toDir_from_Done_dirs:
  "toDir_from env opt fs to i w = (Done, w') \<Longrightarrow>
   \<forall>t\<in>set (take (length fs) (drop i to)). ph_dirname env t \<in> dirs w"
proof (induction fs arbitrary: i w)
  case Nil
  then show ?case by simp
next
  case (Cons f fs)
  from Cons.prems obtain out w1 where
    i: "i < length to" and
    s: "sh_to env (encapsulate opt out) (to ! i) w = Inr w1" and
    r: "toDir_from env opt fs to (Suc i) w1 = (Done, w')"
    by (auto simp add: nth_opt_def split: sum.splits option.splits if_splits)
  from i have d: "drop i to = to ! i # drop (Suc i) to"
    by (simp add: Cons_nth_drop_Suc)
  from s have "dirs w1 = dirs w" and "ph_dirname env (to ! i) \<in> dirs w"
    by (auto simp add: sh_to_def split: if_splits)
  with Cons.IH [OF r] show ?case
    by (simp add: d)
qed

lemma toDir_from_Done_I:
  "list_all2 (\<lambda>p out. parse env opt p w = Inr out) fs outs \<Longrightarrow>
   i + length fs \<le> length to \<Longrightarrow>
   \<forall>t\<in>set (drop i to). ph_dirname env t \<in> dirs w \<Longrightarrow>
   set (drop i to) \<inter> set fs = {} \<Longrightarrow>
   toDir_from env opt fs to i w =
     (Done, w\<lparr>files := written (files w) (zip (drop i to) (map (encapsulate opt) outs))\<rparr>)"
proof (induction fs arbitrary: outs i w)
  case Nil
  then show ?case by (simp add: written_Nil)
next
  case (Cons f fs)
  from Cons.prems(1) obtain out outs' where
    outs: "outs = out # outs'" and p: "parse env opt f w = Inr out" and
    ps: "list_all2 (\<lambda>p out. parse env opt p w = Inr out) fs outs'"
    by (auto simp add: list_all2_Cons1)
  from Cons.prems(2) have i: "i < length to" by simp
  then have d: "drop i to = to ! i # drop (Suc i) to"
    by (simp add: Cons_nth_drop_Suc)
  let ?w1 = "w\<lparr>files := (files w)(to ! i \<mapsto> encapsulate opt out)\<rparr>"
  from Cons.prems(4) d have disj: "set (drop (Suc i) to) \<inter> set fs = {}" and ni: "to ! i \<notin> set fs"
    by auto
  have "\<And>p. p \<in> set fs \<Longrightarrow> parse env opt p ?w1 = parse env opt p w"
    using ni by (intro parse_cong) auto
  with ps have a: "list_all2 (\<lambda>p out. parse env opt p ?w1 = Inr out) fs outs'"
    by (auto elim!: list.rel_mono_strong)
  from Cons.prems(2) have l: "Suc i + length fs \<le> length to" by simp
  from Cons.prems(3) d have dr: "\<forall>t\<in>set (drop (Suc i) to). ph_dirname env t \<in> dirs ?w1"
    and di: "ph_dirname env (to ! i) \<in> dirs w"
    by auto
  from Cons.IH [OF a l dr disj]
  have "toDir_from env opt fs to (Suc i) ?w1 =
      (Done, ?w1\<lparr>files := written (files ?w1) (zip (drop (Suc i) to) (map (encapsulate opt) outs'))\<rparr>)" .
  with p i di show ?case
    by (simp add: nth_opt_def sh_to_def d written_Cons outs)
qed

lemma toDir_from_append:
  "toDir_from env opt (pre @ rest) to i w =
     (case toDir_from env opt pre to i w of
        (Thrown e, w') \<Rightarrow> (Thrown e, w')
      | (Done, w') \<Rightarrow> toDir_from env opt rest to (i + length pre) w')"
  by (induction pre arbitrary: i w) (auto split: sum.splits option.splits prod.splits outcome.splits)

lemma toDir_from_frame:
  "toDir_from env opt fs to i w = (r, w') \<Longrightarrow> logged w' = logged w \<and> dirs w' = dirs w"
  by (induction fs arbitrary: i w)
    (auto simp add: sh_to_def split: sum.splits option.splits if_splits)

lemma toFile_frame:
  "toFile env opt from to w = (r, w') \<Longrightarrow> logged w' = logged w \<and> dirs w' = dirs w"
  by (auto simp add: toFile_def sh_to_def split: sum.splits option.splits if_splits)

lemma parse_not_dir: "parse env opt p w \<noteq> Inl (NoSuchDirectory d)"
  by (simp add: parse_def split: option.splits sum.splits)

lemma parse_all_not_dir: "parse_all env opt ps w \<noteq> Inl (NoSuchDirectory d)"
  by (induction ps) (auto simp add: parse_not_dir split: sum.splits)

lemma toDir_from_dirs:
  "\<forall>t\<in>set to. ph_dirname env t \<in> dirs w \<Longrightarrow>
   fst (toDir_from env opt fs to i w) \<noteq> Thrown (NoSuchDirectory d)"
  by (induction fs arbitrary: i w)
    (auto simp add: sh_to_def nth_opt_def parse_not_dir split: sum.splits option.splits if_splits)

lemma toFile_dirs:
  "\<forall>t\<in>set to. ph_dirname env t \<in> dirs w \<Longrightarrow>
   fst (toFile env opt from to w) \<noteq> Thrown (NoSuchDirectory d)"
  by (auto simp add: toFile_def sh_to_def nth_opt_def parse_all_not_dir split: sum.splits option.splits if_splits)

lemma report_from_not_dir:
  "fst (report_from env fs to i w) \<noteq> Thrown (NoSuchDirectory d)"
  by (induction fs arbitrary: i w) (auto split: option.splits)

subsection \<open>Whole passes\<close>

lemma mkdir_Nil: "sh_mkdir_p env [] w = w"
  by (simp add: sh_mkdir_p_def)

lemma make_empty_mirrored:
  "\<not> flow1_f opt \<Longrightarrow> inputs env opt w = [] \<Longrightarrow> make env opt w = (Done, w)"
  by (simp add: make_mirrored outputs_def remap_def keys_of_Nil mkdir_Nil toDir_def)

lemma make_empty_single:
  assumes "flow1_f opt" and "inputs env opt w = []" and "ph_dirname env (o_to opt) \<noteq> proto_key"
  shows "make env opt w =
    (Done, (sh_mkdir_p env (keys_of [ph_dirname env (o_to opt)]) w)\<lparr>files := (files w)(o_to opt \<mapsto> encapsulate opt [])\<rparr>)"
proof -
  let ?w1 = "sh_mkdir_p env (keys_of [ph_dirname env (o_to opt)]) w"
  have "list_all2 (\<lambda>p out. parse env opt p ?w1 = Inr out) [] []"
    by simp
  moreover from assms(3) have "ph_dirname env (o_to opt) \<in> dirs ?w1"
    by (rule output_dir_made)
  ultimately have "toFile env opt [] [o_to opt] ?w1 =
      (Done, ?w1\<lparr>files := (files ?w1)(o_to opt \<mapsto> encapsulate opt (join_nl []))\<rparr>)"
    by (rule toFile_Done)
  with assms(1,2) show ?thesis
    by (simp add: make_single files_mkdir)
qed


lemma length_outputs_mirrored:
  "\<not> flow1_f opt \<Longrightarrow> length (outputs env opt w) = length (inputs env opt w)"
  by (simp add: outputs_def remap_def)

lemma report_from_Done:
  "to \<noteq> [] \<Longrightarrow> fst (report_from env fs to i w) = Done"
proof (induction fs arbitrary: i w)
  case Nil
  then show ?case by simp
next
  case (Cons src rest)
  from Cons.prems have "js_or (nth_opt to i) (nth_opt to 0) \<noteq> None"
    by (simp add: js_or_def nth_opt_def)
  then obtain out where "js_or (nth_opt to i) (nth_opt to 0) = Some out"
    by blast
  with Cons.IH [OF Cons.prems] show ?case by simp
qed

lemma written_map_add: "written m kvs = m ++ map_of (rev kvs)"
proof (induction kvs arbitrary: m)
  case Nil
  then show ?case by (simp add: written_Nil)
next
  case (Cons kv kvs)
  obtain k v where kv: "kv = (k, v)" by (cases kv)
  have "written (m(k \<mapsto> v)) kvs = m(k \<mapsto> v) ++ map_of (rev kvs)"
    by (rule Cons.IH)
  also have "\<dots> = m ++ map_of (rev kvs @ [(k, v)])"
    by (simp add: map_add_def fun_eq_iff split: option.splits)
  finally show ?case
    by (simp add: kv written_Cons)
qed

lemma written_idem: "written (written m kvs) kvs = written m kvs"
  by (simp add: written_map_add map_add_def fun_eq_iff split: option.splits)

lemma written_other: "k \<notin> fst ` set kvs \<Longrightarrow> written m kvs k = m k"
  by (simp add: written_map_add map_add_def map_of_eq_None_iff [THEN iffD2] split: option.splits)

lemma written_zip_other: "k \<notin> set ks \<Longrightarrow> written m (zip ks vs) k = m k"
  by (rule written_other) (auto dest: set_zip_leftD)

lemma parse_all_first_error:
  "list_all2 (\<lambda>p out. parse env opt p w = Inr out) pre outs \<Longrightarrow> parse env opt f w = Inl e \<Longrightarrow>
   parse_all env opt (pre @ f # post) w = Inl e"
  by (induction pre arbitrary: outs) (auto simp add: list_all2_Cons1)

lemma make_mirrored_Done_gen:
  assumes "\<not> flow1_f opt"
    and "list_all2 (\<lambda>p out. parse env opt p w = Inr out) (inputs env opt w) outs"
    and "set (outputs env opt w) \<inter> set (inputs env opt w) = {}"
    and "\<forall>t\<in>set (outputs env opt w). ph_dirname env t \<in>
           dirs (sh_mkdir_p env (keys_of (map (ph_dirname env) (outputs env opt w))) w)"
  shows "\<exists>w'. make env opt w = (Done, w') \<and>
     files w' = written (files w) (zip (outputs env opt w) (map (encapsulate opt) outs)) \<and>
     dirs w' = dirs (sh_mkdir_p env (keys_of (map (ph_dirname env) (outputs env opt w))) w)"
proof -
  let ?from = "inputs env opt w"
  let ?to = "outputs env opt w"
  let ?w1 = "sh_mkdir_p env (keys_of (map (ph_dirname env) ?to)) w"
  let ?w2 = "?w1\<lparr>files := written (files ?w1) (zip (drop 0 ?to) (map (encapsulate opt) outs))\<rparr>"
  from assms(2) have a: "list_all2 (\<lambda>p out. parse env opt p ?w1 = Inr out) ?from outs"
    by (simp add: parse_mkdir)
  from assms(1) have len: "0 + length ?from \<le> length ?to"
    by (simp add: length_outputs_mirrored)
  from assms(4) have made: "\<forall>t\<in>set (drop 0 ?to). ph_dirname env t \<in> dirs ?w1"
    by simp
  from assms(3) have "set (drop 0 ?to) \<inter> set ?from = {}"
    by simp
  from toDir_from_Done_I [OF a len made this]
  have td: "toDir env opt ?from ?to ?w1 = (Done, ?w2)"
    by (simp add: toDir_def)
  show ?thesis
  proof (cases "silent (o_compiler opt)")
    case True
    with assms(1) td have "make env opt w = (Done, ?w2)"
      by (simp add: make_mirrored)
    then show ?thesis
      by (simp add: files_mkdir)
  next
    case False
    obtain r w3 where rp: "report_from env ?from ?to 0 ?w2 = (r, w3)"
      by (cases "report_from env ?from ?to 0 ?w2")
    have "fst (report_from env ?from ?to 0 ?w2) = Done"
    proof (cases "?to = []")
      case True
      with len have "?from = []" by simp
      then show ?thesis by simp
    next
      case False
      then show ?thesis by (rule report_from_Done)
    qed
    with rp have r: "r = Done" by simp
    from False assms(1) td rp r have "make env opt w = (Done, w3)"
      by (simp add: make_mirrored)
    moreover from report_from_world [OF rp] have "files w3 = files ?w2" "dirs w3 = dirs ?w2"
      by simp_all
    ultimately show ?thesis
      by (simp add: files_mkdir)
  qed
qed

lemma make_mirrored_Done:
  assumes "\<not> flow1_f opt"
    and "list_all2 (\<lambda>p out. parse env opt p w = Inr out) (inputs env opt w) outs"
    and "set (outputs env opt w) \<inter> set (inputs env opt w) = {}"
    and "proto_key \<notin> ph_dirname env ` set (outputs env opt w)"
  shows "\<exists>w'. make env opt w = (Done, w') \<and>
     files w' = written (files w) (zip (outputs env opt w) (map (encapsulate opt) outs)) \<and>
     dirs w' = dirs (sh_mkdir_p env (keys_of (map (ph_dirname env) (outputs env opt w))) w)"
  using assms(1,2,3) outputs_dirs_made [OF assms(4)] by (rule make_mirrored_Done_gen)

lemma make_mirrored_Done_D:
  assumes "\<not> flow1_f opt"
    and "make env opt w = (Done, w')"
    and "set (outputs env opt w) \<inter> set (inputs env opt w) = {}"
  shows "\<exists>outs. list_all2 (\<lambda>p out. parse env opt p w = Inr out) (inputs env opt w) outs \<and>
     files w' = written (files w) (zip (outputs env opt w) (map (encapsulate opt) outs)) \<and>
     dirs w' = dirs (sh_mkdir_p env (keys_of (map (ph_dirname env) (outputs env opt w))) w) \<and>
     (\<forall>t\<in>set (outputs env opt w). ph_dirname env t \<in> dirs w')"
proof -
  let ?from = "inputs env opt w"
  let ?to = "outputs env opt w"
  let ?w1 = "sh_mkdir_p env (keys_of (map (ph_dirname env) ?to)) w"
  obtain r w2 where td: "toDir_from env opt ?from ?to 0 ?w1 = (r, w2)"
    by (cases "toDir_from env opt ?from ?to 0 ?w1")
  with assms(1,2) have r: "r = Done"
    by (cases r) (simp_all add: make_mirrored toDir_def)
  from assms(3) have "set (drop 0 ?to) \<inter> set ?from = {}"
    by simp
  from toDir_from_Done_D [OF td [unfolded r] this] obtain outs where
    a: "list_all2 (\<lambda>p out. parse env opt p ?w1 = Inr out) ?from outs" and
    w2: "w2 = ?w1\<lparr>files := written (files ?w1) (zip (drop 0 ?to) (map (encapsulate opt) outs))\<rparr>"
    by blast
  from a have a': "list_all2 (\<lambda>p out. parse env opt p w = Inr out) ?from outs"
    by (simp add: parse_mkdir)
  from assms(1) have "length ?to = length ?from"
    by (rule length_outputs_mirrored)
  with toDir_from_Done_dirs [OF td [unfolded r]]
  have made: "\<forall>t\<in>set ?to. ph_dirname env t \<in> dirs ?w1"
    by simp
  from make_mirrored_Done_gen [OF assms(1) a' assms(3) made] assms(2) made a' show ?thesis
    by auto
qed

lemma make_single_Done_gen:
  assumes "flow1_f opt"
    and "list_all2 (\<lambda>p out. parse env opt p w = Inr out) (inputs env opt w) outs"
    and "ph_dirname env (o_to opt) \<in> dirs (sh_mkdir_p env (keys_of [ph_dirname env (o_to opt)]) w)"
  shows "\<exists>w'. make env opt w = (Done, w') \<and>
     files w' = (files w)(o_to opt \<mapsto> encapsulate opt (join_nl outs)) \<and>
     dirs w' = dirs (sh_mkdir_p env (keys_of [ph_dirname env (o_to opt)]) w)"
proof -
  let ?w1 = "sh_mkdir_p env (keys_of [ph_dirname env (o_to opt)]) w"
  let ?w2 = "?w1\<lparr>files := (files ?w1)(o_to opt \<mapsto> encapsulate opt (join_nl outs))\<rparr>"
  from assms(2) have "list_all2 (\<lambda>p out. parse env opt p ?w1 = Inr out) (inputs env opt w) outs"
    by (simp add: parse_mkdir)
  moreover note assms(3)
  ultimately have tf: "toFile env opt (inputs env opt w) [o_to opt] ?w1 = (Done, ?w2)"
    by (rule toFile_Done)
  show ?thesis
  proof (cases "silent (o_compiler opt)")
    case True
    with assms(1) tf have "make env opt w = (Done, ?w2)"
      by (simp add: make_single)
    then show ?thesis
      by (simp add: files_mkdir)
  next
    case False
    let ?w3 = "?w2\<lparr>logged := logged ?w2 @ map (\<lambda>src. report_line env src (o_to opt)) (inputs env opt w)\<rparr>"
    from False assms(1) tf have "make env opt w = (Done, ?w3)"
      by (simp add: make_single report_from_single)
    then show ?thesis
      by (simp add: files_mkdir)
  qed
qed

lemma make_single_Done:
  assumes "flow1_f opt"
    and "list_all2 (\<lambda>p out. parse env opt p w = Inr out) (inputs env opt w) outs"
    and "ph_dirname env (o_to opt) \<noteq> proto_key"
  shows "\<exists>w'. make env opt w = (Done, w') \<and>
     files w' = (files w)(o_to opt \<mapsto> encapsulate opt (join_nl outs)) \<and>
     dirs w' = dirs (sh_mkdir_p env (keys_of [ph_dirname env (o_to opt)]) w)"
  using assms(1,2) output_dir_made [OF assms(3)] by (rule make_single_Done_gen)

lemma toFile_Done_D:
  "toFile env opt from to w = (Done, w') \<Longrightarrow>
   \<exists>outs. list_all2 (\<lambda>p out. parse env opt p w = Inr out) from outs"
  by (auto simp add: toFile_def dest: parse_all_Inr_D split: sum.splits option.splits)

lemma toFile_Done_dir:
  "toFile env opt from [t] w = (Done, w') \<Longrightarrow> ph_dirname env t \<in> dirs w"
  by (auto simp add: toFile_def nth_opt_def sh_to_def split: sum.splits option.splits if_splits)

lemma make_single_Done_D:
  assumes "flow1_f opt" and "make env opt w = (Done, w')"
  shows "\<exists>outs. list_all2 (\<lambda>p out. parse env opt p w = Inr out) (inputs env opt w) outs \<and>
     files w' = (files w)(o_to opt \<mapsto> encapsulate opt (join_nl outs)) \<and>
     dirs w' = dirs (sh_mkdir_p env (keys_of [ph_dirname env (o_to opt)]) w) \<and>
     ph_dirname env (o_to opt) \<in> dirs w'"
proof -
  let ?w1 = "sh_mkdir_p env (keys_of [ph_dirname env (o_to opt)]) w"
  obtain r w2 where tf: "toFile env opt (inputs env opt w) [o_to opt] ?w1 = (r, w2)"
    by (cases "toFile env opt (inputs env opt w) [o_to opt] ?w1")
  with assms have r: "r = Done"
    by (cases r) (simp_all add: make_single)
  from toFile_Done_D [OF tf [unfolded r]] obtain outs where
    "list_all2 (\<lambda>p out. parse env opt p ?w1 = Inr out) (inputs env opt w) outs"
    by blast
  then have a: "list_all2 (\<lambda>p out. parse env opt p w = Inr out) (inputs env opt w) outs"
    by (simp add: parse_mkdir)
  from toFile_Done_dir [OF tf [unfolded r]]
  have made: "ph_dirname env (o_to opt) \<in> dirs ?w1" .
  from make_single_Done_gen [OF assms(1) a made] assms(2) made a show ?thesis
    by auto
qed

lemma dirs_mkdir_absorb:
  "dirs w1 = dirs (sh_mkdir_p env ds w) \<Longrightarrow> dirs (sh_mkdir_p env ds w1) = dirs w1"
  by (auto simp add: sh_mkdir_p_def)

lemma outputs_cong:
  "inputs env opt w1 = inputs env opt w \<Longrightarrow> outputs env opt w1 = outputs env opt w"
  by (simp add: outputs_def)

lemma zip_take_left: "zip (take (length ys) xs) ys = zip xs ys"
proof (induction xs arbitrary: ys)
  case Nil
  then show ?case by simp
next
  case (Cons x xs)
  then show ?case by (cases ys) simp_all
qed

lemma toDir_from_first_error:
  assumes "list_all2 (\<lambda>p out. parse env opt p w = Inr out) pre outs"
    and "parse env opt f w = Inl e"
    and "length pre < length to"
    and "\<forall>t\<in>set to. ph_dirname env t \<in> dirs w"
    and "set to \<inter> set (pre @ f # post) = {}"
  shows "toDir_from env opt (pre @ f # post) to 0 w =
    (Thrown e, w\<lparr>files := written (files w) (zip to (map (encapsulate opt) outs))\<rparr>)"
proof -
  let ?w' = "w\<lparr>files := written (files w) (zip (drop 0 to) (map (encapsulate opt) outs))\<rparr>"
  from assms(3) have l: "0 + length pre \<le> length to" by simp
  from assms(4) have d: "\<forall>t\<in>set (drop 0 to). ph_dirname env t \<in> dirs w" by simp
  from assms(5) have "set (drop 0 to) \<inter> set pre = {}" by auto
  from toDir_from_Done_I [OF assms(1) l d this]
  have pre: "toDir_from env opt pre to 0 w = (Done, ?w')" .
  from assms(5) have "f \<notin> set to" by auto
  then have "files ?w' f = files w f"
    by (simp add: written_zip_other)
  then have "parse env opt f ?w' = parse env opt f w"
    by (rule parse_cong)
  with assms(2) have "toDir_from env opt (f # post) to (length pre) ?w' = (Thrown e, ?w')"
    by simp
  with pre show ?thesis
    by (simp add: toDir_from_append)
qed

lemma make_mirrored_logged:
  assumes "make env opt w = (Done, w')"
    and "\<not> silent (o_compiler opt)"
    and "\<not> flow1_f opt"
    and "[] \<notin> set (outputs env opt w)"
  shows "logged w' = logged w @ map2 (report_line env) (inputs env opt w) (outputs env opt w)"
proof -
  let ?to = "outputs env opt w"
  let ?w1 = "sh_mkdir_p env (keys_of (map (ph_dirname env) ?to)) w"
  obtain r w2 where td: "toDir_from env opt (inputs env opt w) ?to 0 ?w1 = (r, w2)"
    by (cases "toDir_from env opt (inputs env opt w) ?to 0 ?w1")
  with assms(1,3) have r: "r = Done"
    by (cases r) (simp_all add: make_mirrored toDir_def)
  from toDir_from_frame [OF td] have l2: "logged w2 = logged w"
    by (simp add: logged_mkdir)
  from assms(3) have len: "length ?to = length (inputs env opt w)"
    by (rule length_outputs_mirrored)
  from assms(4) have ne: "[] \<notin> set (drop 0 ?to)"
    by simp
  from len have "0 + length (inputs env opt w) \<le> length ?to"
    by simp
  from report_from_mirrored [OF ne this, of env w2] assms(1,2,3) td r
  have "w' = w2\<lparr>logged := logged w2 @ map2 (report_line env) (inputs env opt w) ?to\<rparr>"
    by (simp add: make_mirrored toDir_def)
  with l2 show ?thesis
    by simp
qed

subsection \<open>The concrete setting\<close>

lemma flow_ex:
  "flow1_f opt_concat" "\<not> flow0_f opt_concat" "\<not> flow1_f opt_mirror" "\<not> flow0_f opt_mirror"
  by (simp_all add: flow0_f_def flow1_f_def opt_concat_def opt_mirror_def js_def)

lemma inputs_ok:
  "inputs env_ex opt_concat world_ok = [js ''/s/a.tag'', js ''/s/b.tag'']"
  by (simp add: inputs_def flow_ex) (simp add: env_ex_def find_ex_def opt_concat_def world_ok_def js_def)

lemma inputs_bad:
  "inputs env_ex opt_concat world_bad = [js ''/s/a.tag'', js ''/s/b.tag'']"
  by (simp add: inputs_def flow_ex) (simp add: env_ex_def find_ex_def opt_concat_def world_bad_def js_def)

lemma find_empty: "find_tags env_ex world_empty (o_from opt_concat) = []"
  by (simp add: env_ex_def find_ex_def world_empty_def)

lemma inputs_mirror_ok:
  "inputs env_ex opt_mirror world_ok = [js ''/s/a.tag'', js ''/s/b.tag'']"
  by (simp add: inputs_def flow_ex) (simp add: env_ex_def find_ex_def opt_mirror_def world_ok_def js_def)

lemma outputs_mirror_ok:
  "outputs env_ex opt_mirror world_ok = [js ''/o/a.js'', js ''/o/b.js'']"
  by (simp add: outputs_def flow_ex inputs_mirror_ok remap_def base_of_def)
    (simp add: env_ex_def remap_path_ex_def opt_mirror_def js_def)

lemma js_append: "js a @ js b = js (a @ b)"
  by (simp add: js_def)

lemma parse_mirror_ok:
  "list_all2 (\<lambda>p out. parse env_ex opt_mirror p world_ok = Inr out)
     (inputs env_ex opt_mirror world_ok) [js ''t(<a/>)'', js ''t(<b/>)'']"
  by (simp add: inputs_mirror_ok)
    (simp add: parse_def sh_cat_def env_ex_def compile_ex_def strip_bom_def BOM_def
      world_ok_def js_def)

lemma disjoint_mirror_ok:
  "set (outputs env_ex opt_mirror world_ok) \<inter> set (inputs env_ex opt_mirror world_ok) = {}"
  by (simp add: inputs_mirror_ok outputs_mirror_ok) (simp add: js_def)

lemma inputs_mirror_bad:
  "inputs env_ex opt_mirror world_bad = [js ''/s/a.tag'', js ''/s/b.tag'']"
  by (simp add: inputs_def flow_ex) (simp add: env_ex_def find_ex_def opt_mirror_def world_bad_def js_def)

lemma outputs_mirror_bad:
  "outputs env_ex opt_mirror world_bad = [js ''/o/a.js'', js ''/o/b.js'']"
  by (simp add: outputs_def flow_ex inputs_mirror_bad remap_def base_of_def)
    (simp add: env_ex_def remap_path_ex_def opt_mirror_def js_def)

lemma flow_modular: "flow1_f opt_modular"
  by (simp add: flow1_f_def opt_modular_def opt_concat_def js_def)


lemma parse_concat_ok:
  "list_all2 (\<lambda>p out. parse env_ex opt_concat p world_ok = Inr out)
     (inputs env_ex opt_concat world_ok) [js ''t(<a/>)'', js ''t(<b/>)'']"
  by (simp add: inputs_ok)
    (simp add: parse_def sh_cat_def env_ex_def compile_ex_def strip_bom_def BOM_def
      world_ok_def js_def)

lemma parse_modular_ok:
  "list_all2 (\<lambda>p out. parse env_ex opt_modular p world_ok = Inr out)
     (inputs env_ex opt_modular world_ok) [js ''t(<a/>)'', js ''t(<b/>)'']"
  by (simp add: inputs_def flow0_f_def opt_modular_def opt_concat_def js_def)
    (simp add: parse_def sh_cat_def env_ex_def find_ex_def compile_ex_def strip_bom_def BOM_def
      world_ok_def js_def)


lemma dir_concat_ok: "ph_dirname env_ex (o_to opt_concat) \<noteq> proto_key"
  by (simp add: env_ex_def dirname_ex_def opt_concat_def proto_key_def js_def)

lemma dir_modular_ok: "ph_dirname env_ex (o_to opt_modular) \<noteq> proto_key"
  by (simp add: env_ex_def dirname_ex_def opt_modular_def opt_concat_def proto_key_def js_def)

lemma dirs_mirror_ok:
  "proto_key \<notin> ph_dirname env_ex ` set (outputs env_ex opt_mirror world_ok)"
  by (simp add: outputs_mirror_ok) (simp add: env_ex_def dirname_ex_def proto_key_def js_def)

lemma files_log: "files (log msg w) = files w"
  by (simp add: log_def)

lemma logged_log: "logged (log msg w) = logged w @ [msg]"
  by (simp add: log_def)

lemma lines_mirror_ok:
  "report_line env_ex (js ''/s/a.tag'') (js ''/o/a.js'') = js ''s/a.tag -> o/a.js''"
  "report_line env_ex (js ''/s/b.tag'') (js ''/o/b.js'') = js ''s/b.tag -> o/b.js''"
  by (simp_all add: report_line_def env_ex_def toRelative_ex_def js_def)

lemma logged_world_ok: "logged world_ok = []"
  by (simp add: world_ok_def)

lemma watching_line:
  "js ''Watching '' @ toRelative env_ex (glob_of env_ex opt_mirror) = js ''Watching s/**/*.tag''"
  by (simp add: glob_of_def flow_ex) (simp add: env_ex_def toRelative_ex_def join_ex_def opt_mirror_def js_def)

subsection \<open>The module wrapper\<close>

lemma scan_append:
  "scan (a @ b) st = (case scan a st of None \<Rightarrow> None | Some st' \<Rightarrow> scan b st')"
  by (induction a st rule: scan.induct) (auto split: option.splits list.splits)

lemma scan_frame:
  "scan t s = Some s' \<Longrightarrow> scan t (s @ r) = Some (s' @ r)"
  by (induction t s rule: scan.induct) (auto split: option.splits list.splits if_splits)

lemma scan_shim_head:
  "scan shim_head [] = Some [of_char CHR ''}'', of_char CHR '')'']"
  by (simp add: shim_head_def js_def NL_def closer_def is_close_def)

lemma scan_shim_tail:
  "scan shim_tail [of_char CHR ''}'', of_char CHR '')''] = Some []"
  by (simp add: shim_tail_def js_def NL_def closer_def is_close_def)

lemma balanced_wrap:
  assumes "balanced text"
  shows "balanced (shim_head @ text @ shim_tail)"
proof -
  from assms have "scan text [] = Some []"
    by (simp add: balanced_def)
  from scan_frame [OF this, of "[of_char CHR ''}'', of_char CHR '')'']"]
  have "scan text [of_char CHR ''}'', of_char CHR '')''] = Some [of_char CHR ''}'', of_char CHR '')'']"
    by simp
  then show ?thesis
    unfolding balanced_def
    by (simp only: scan_append scan_shim_head scan_shim_tail option.case)
qed

text \<open>
  C3. Without module packaging \<open>encapsulate\<close> returns the text unchanged. With module
  packaging the result is the fixed head, the text, and the fixed tail, so the text is a
  contiguous part of it; the wrapper alone has every bracket it opens closed, and so has
  the whole result when the text itself has.
\<close>

theorem encapsulate_roundtrip:
  "(\<not> modular (o_compiler opt) \<longrightarrow> encapsulate opt text = text) \<and>
   (modular (o_compiler opt) \<longrightarrow>
      encapsulate opt text = shim_head @ text @ shim_tail \<and>
      sublist text (encapsulate opt text) \<and>
      balanced (encapsulate opt []) \<and>
      (balanced text \<longrightarrow> balanced (encapsulate opt text)))"
proof -
  have "balanced []"
    by (simp add: balanced_def)
  then have "balanced (shim_head @ [] @ shim_tail)"
    by (rule balanced_wrap)
  then show ?thesis
    by (auto simp add: encapsulate_def sublist_def balanced_wrap simp del: append_Nil)
qed

theorem encapsulate_roundtrip_witness:
  "modular (o_compiler opt_modular) \<and> balanced (js ''f({})'') \<and>
   sublist (js ''f({})'') (encapsulate opt_modular (js ''f({})'')) \<and>
   balanced (encapsulate opt_modular (js ''f({})''))"
proof -
  have m: "modular (o_compiler opt_modular)"
    by (simp add: opt_modular_def)
  have b: "balanced (js ''f({})'')"
    by (simp add: balanced_def js_def closer_def is_close_def)
  from encapsulate_roundtrip [of opt_modular "js ''f({})''"] m b show ?thesis
    by blast
qed

subsection \<open>Building into one file\<close>

lemma join_nl_concat:
  "join_nl outs =
     (case outs of [] \<Rightarrow> [] | x # xs \<Rightarrow> x @ concat (map (\<lambda>y. 0x0A # y) xs))"
proof (induction outs rule: join_nl.induct)
  case 1
  show ?case by simp
next
  case (2 x)
  show ?case by simp
next
  case (3 x y ys)
  then show ?case by (simp add: NL_def)
qed

text \<open>
  C1. When the destination is a single file and every input compiles, the pass completes
  and changes the files at the destination path only, so exactly one output file is
  produced. Without module packaging that file holds the compiled text of the first input
  followed, for each further input in the order of the inputs, by one newline (the code
  unit 10) and the compiled text of that input; with module packaging it holds this text
  between the head and the tail of the wrapper. (The directory of the destination is taken
  not to be the key \<^verbatim>\<open>__proto__\<close>; see the subsection on output directories.)
\<close>

theorem single_file_concatenation:
  assumes "flow1_f opt"
    and "list_all2 (\<lambda>p out. parse env opt p w = Inr out) (inputs env opt w) outs"
    and "ph_dirname env (o_to opt) \<noteq> proto_key"
  shows "let content = (case outs of [] \<Rightarrow> [] | x # xs \<Rightarrow> x @ concat (map (\<lambda>y. 0x0A # y) xs))
         in \<exists>w'. make env opt w = (Done, w') \<and>
              files w' = (files w)(o_to opt \<mapsto>
                (if modular (o_compiler opt) then shim_head @ content @ shim_tail else content))"
proof -
  from make_single_Done [OF assms] obtain w' where
    m: "make env opt w = (Done, w')" and
    f: "files w' = (files w)(o_to opt \<mapsto> encapsulate opt (join_nl outs))"
    by blast
  have "encapsulate opt (join_nl outs) =
      (if modular (o_compiler opt) then shim_head @ join_nl outs @ shim_tail else join_nl outs)"
    by (simp add: encapsulate_def)
  with m f show ?thesis
    unfolding Let_def join_nl_concat [symmetric] by auto
qed

theorem single_file_concatenation_witness:
  "(\<exists>w'. make env_ex opt_concat world_ok = (Done, w') \<and>
      files w' = (files world_ok)(js ''/o/x.js'' \<mapsto> js ''t(<a/>)\<newline>t(<b/>)'')) \<and>
   (\<exists>w'. make env_ex opt_modular world_ok = (Done, w') \<and>
      files w' = (files world_ok)(js ''/o/x.js'' \<mapsto>
        shim_head @ js ''t(<a/>)\<newline>t(<b/>)'' @ shim_tail))"
proof -
  have c: "(case [js ''t(<a/>)'', js ''t(<b/>)''] of [] \<Rightarrow> []
      | x # xs \<Rightarrow> x @ concat (map (\<lambda>y. 0x0A # y) xs)) = js ''t(<a/>)\<newline>t(<b/>)''"
    by (simp add: js_def)
  have t: "o_to opt_concat = js ''/o/x.js''" "o_to opt_modular = js ''/o/x.js''"
    by (simp_all add: opt_concat_def opt_modular_def)
  have m: "\<not> modular (o_compiler opt_concat)" "modular (o_compiler opt_modular)"
    by (simp_all add: opt_concat_def opt_modular_def copts_ex_def)
  from single_file_concatenation [OF flow_ex(1) parse_concat_ok dir_concat_ok]
    single_file_concatenation [OF flow_modular parse_modular_ok dir_modular_ok]
  show ?thesis
    unfolding Let_def c t using m by simp
qed

text \<open>
  C10. When the destination is a single file and the compiler rejects one of the inputs,
  the pass throws and no file has been written: the files are those before the pass, and
  nothing has been reported.
\<close>

theorem single_file_atomic:
  assumes "flow1_f opt"
    and "p \<in> set (inputs env opt w)"
    and "files w p = Some text"
    and "compile env (strip_bom text) (o_compiler opt) = Inl e"
  shows "\<exists>e' w'. make env opt w = (Thrown e', w') \<and> files w' = files w \<and> logged w' = logged w"
proof -
  let ?w1 = "sh_mkdir_p env (keys_of [ph_dirname env (o_to opt)]) w"
  from assms(3,4) have "parse env opt p w = Inl (CompileError e)"
    by (simp add: parse_def sh_cat_def)
  with assms(2) obtain e' where "parse_all env opt (inputs env opt w) w = Inl e'"
    using parse_all_Inl by blast
  then have "parse_all env opt (inputs env opt w) ?w1 = Inl e'"
    by (simp add: parse_all_mkdir)
  then have "toFile env opt (inputs env opt w) [o_to opt] ?w1 = (Thrown e', ?w1)"
    by (rule toFile_Thrown)
  with assms(1) have "make env opt w = (Thrown e', ?w1)"
    by (simp add: make_single)
  then show ?thesis
    by (auto simp add: files_mkdir logged_mkdir)
qed

theorem single_file_atomic_witness:
  "\<exists>e' w'. make env_ex opt_concat world_bad = (Thrown e', w') \<and>
     files w' = files world_bad \<and> logged w' = logged world_bad"
proof -
  have "js ''/s/b.tag'' \<in> set (inputs env_ex opt_concat world_bad)"
    by (simp add: inputs_bad)
  moreover have "files world_bad (js ''/s/b.tag'') = Some []"
    by (simp add: world_bad_def js_def)
  moreover have "compile env_ex (strip_bom []) (o_compiler opt_concat) = Inl (js ''empty'')"
    by (simp add: env_ex_def compile_ex_def strip_bom_def)
  ultimately show ?thesis
    using flow_ex(1) by (rule single_file_atomic [rotated])
qed

subsection \<open>A tree without inputs\<close>

text \<open>
  C4, as the code has it. When the source is a tree in which \<open>find\<close> finds no input,
  the pass completes without throwing. With a mirrored destination it leaves the world as
  it was: no file is written. With a single-file destination it writes exactly one file,
  the destination, holding the encapsulation of the empty text, and reports nothing. (The
  directory of the destination is taken not to be the key \<^verbatim>\<open>__proto__\<close>; see the
  subsection on output directories.)
\<close>

theorem empty_tree_pass:
  assumes "\<not> flow0_f opt" and "find_tags env w (o_from opt) = []"
  shows "(\<not> flow1_f opt \<longrightarrow> make env opt w = (Done, w)) \<and>
         (flow1_f opt \<longrightarrow> ph_dirname env (o_to opt) \<noteq> proto_key \<longrightarrow>
            (\<exists>w'. make env opt w = (Done, w') \<and>
               files w' = (files w)(o_to opt \<mapsto> encapsulate opt []) \<and>
               logged w' = logged w))"
proof -
  from assms have e: "inputs env opt w = []"
    by (simp add: inputs_def)
  show ?thesis
  proof (cases "flow1_f opt")
    case True
    from make_empty_single [OF True e] True show ?thesis
      by (simp add: logged_mkdir)
  next
    case False
    with e show ?thesis
      by (simp add: make_empty_mirrored)
  qed
qed

theorem empty_tree_pass_witness:
  "(\<exists>w'. make env_ex opt_concat world_empty = (Done, w') \<and>
      files w' = (files world_empty)(o_to opt_concat \<mapsto> encapsulate opt_concat []) \<and>
      logged w' = logged world_empty) \<and>
   make env_ex opt_mirror world_empty = (Done, world_empty)"
proof -
  have "find_tags env_ex world_empty (o_from opt_mirror) = []"
    by (simp add: env_ex_def find_ex_def world_empty_def)
  from empty_tree_pass [OF flow_ex(2) find_empty] empty_tree_pass [OF flow_ex(4) this]
  show ?thesis
    using flow_ex(1,3) dir_concat_ok by blast
qed

text \<open>
  As the specification states it, C4 fails for a single-file destination: for the tree \<^verbatim>\<open>/s\<close>
  without tags and the destination \<^verbatim>\<open>/o/x.js\<close>, the pass completes and the file
  \<^verbatim>\<open>/o/x.js\<close>, which did not exist, exists afterwards and is empty.
\<close>

theorem empty_tree_single_file_counterexample:
  "\<not> flow0_f opt_concat \<and> find_tags env_ex world_empty (o_from opt_concat) = [] \<and>
   fst (make env_ex opt_concat world_empty) = Done \<and>
   files world_empty (o_to opt_concat) = None \<and>
   files (snd (make env_ex opt_concat world_empty)) (o_to opt_concat) = Some []"
proof -
  have "inputs env_ex opt_concat world_empty = []"
    by (simp add: inputs_def flow_ex find_empty)
  from make_empty_single [OF flow_ex(1) this dir_concat_ok] show ?thesis
    by (simp add: flow_ex find_empty) (simp add: world_empty_def encapsulate_def opt_concat_def copts_ex_def)
qed

subsection \<open>Output directories\<close>

text \<open>
  What the pass does for the directories: after a pass, whatever its outcome, the
  directories are those it started with and those \<^verbatim>\<open>mkdir\<close> made for the keys; and when
  no output has the key \<^verbatim>\<open>__proto__\<close> as its directory, no write is refused for a
  missing directory.
\<close>

lemma make_dirs:
  assumes "make env opt w = (r, w')"
  shows "dirs w' = dirs (sh_mkdir_p env (keys_of (map (ph_dirname env) (outputs env opt w))) w)"
proof (cases "flow1_f opt")
  case True
  let ?w1 = "sh_mkdir_p env (keys_of [ph_dirname env (o_to opt)]) w"
  obtain r2 w2 where tf: "toFile env opt (inputs env opt w) [o_to opt] ?w1 = (r2, w2)"
    by (cases "toFile env opt (inputs env opt w) [o_to opt] ?w1")
  obtain r3 w3 where rp: "report_from env (inputs env opt w) [o_to opt] 0 w2 = (r3, w3)"
    by (cases "report_from env (inputs env opt w) [o_to opt] 0 w2")
  from assms True tf rp have "w' = w2 \<or> w' = w3"
    by (cases r2) (auto simp add: make_single split: if_splits)
  with toFile_frame [OF tf] report_from_world [OF rp] True show ?thesis
    by (auto simp add: outputs_def)
next
  case False
  let ?to = "outputs env opt w"
  let ?w1 = "sh_mkdir_p env (keys_of (map (ph_dirname env) ?to)) w"
  obtain r2 w2 where td: "toDir_from env opt (inputs env opt w) ?to 0 ?w1 = (r2, w2)"
    by (cases "toDir_from env opt (inputs env opt w) ?to 0 ?w1")
  obtain r3 w3 where rp: "report_from env (inputs env opt w) ?to 0 w2 = (r3, w3)"
    by (cases "report_from env (inputs env opt w) ?to 0 w2")
  from assms False td rp have "w' = w2 \<or> w' = w3"
    by (cases r2) (auto simp add: make_mirrored toDir_def split: if_splits)
  with toDir_from_frame [OF td] report_from_world [OF rp] show ?thesis
    by auto
qed

lemma make_no_missing_dir:
  assumes "proto_key \<notin> ph_dirname env ` set (outputs env opt w)"
  shows "fst (make env opt w) \<noteq> Thrown (NoSuchDirectory d)"
proof -
  let ?to = "outputs env opt w"
  let ?w1 = "sh_mkdir_p env (keys_of (map (ph_dirname env) ?to)) w"
  from assms have made: "\<forall>t\<in>set ?to. ph_dirname env t \<in> dirs ?w1"
    by (rule outputs_dirs_made)
  show ?thesis
  proof (cases "flow1_f opt")
    case True
    let ?w1' = "sh_mkdir_p env (keys_of [ph_dirname env (o_to opt)]) w"
    from True have to: "?to = [o_to opt]"
      by (simp add: outputs_def)
    with made have made': "\<forall>t\<in>set [o_to opt]. ph_dirname env t \<in> dirs ?w1'"
      by simp
    obtain r w2 where tf: "toFile env opt (inputs env opt w) [o_to opt] ?w1' = (r, w2)"
      by (cases "toFile env opt (inputs env opt w) [o_to opt] ?w1'")
    with toFile_dirs [OF made', of opt "inputs env opt w" d]
    have "r \<noteq> Thrown (NoSuchDirectory d)" by simp
    with tf True show ?thesis
      using report_from_not_dir [of env "inputs env opt w" "[o_to opt]" 0 w2 d]
      by (cases r) (simp_all add: make_single)
  next
    case False
    obtain r w2 where td: "toDir_from env opt (inputs env opt w) ?to 0 ?w1 = (r, w2)"
      by (cases "toDir_from env opt (inputs env opt w) ?to 0 ?w1")
    with toDir_from_dirs [OF made, of opt "inputs env opt w" 0 d]
    have "r \<noteq> Thrown (NoSuchDirectory d)" by simp
    with td False show ?thesis
      using report_from_not_dir [of env "inputs env opt w" ?to 0 w2 d]
      by (cases r) (simp_all add: make_mirrored toDir_def)
  qed
qed



subsection \<open>A compiler error\<close>

text \<open>
  C2. Let the compiler reject input \<open>k\<close> of a pass, with the error \<open>e\<close>, after the inputs
  before it have compiled (in the mirrored case, with no output path among the input
  paths, and no output directory the key \<^verbatim>\<open>__proto__\<close>). Then the pass throws the
  compiler's error \<open>e\<close> itself and reports nothing. With
  a single-file destination no file has changed; with a mirrored destination the outputs
  of the \<open>k\<close> inputs before are on disk, and nothing else has changed.
\<close>

theorem compile_error_aborts:
  assumes "k < length (inputs env opt w)"
    and "list_all2 (\<lambda>p out. parse env opt p w = Inr out) (take k (inputs env opt w)) outs"
    and "files w (inputs env opt w ! k) = Some text"
    and "compile env (strip_bom text) (o_compiler opt) = Inl e"
    and "\<not> flow1_f opt \<longrightarrow>
           set (outputs env opt w) \<inter> set (inputs env opt w) = {} \<and>
           proto_key \<notin> ph_dirname env ` set (outputs env opt w)"
  shows "\<exists>w'. make env opt w = (Thrown (CompileError e), w') \<and> logged w' = logged w \<and>
     files w' =
       (if flow1_f opt then files w
        else written (files w) (zip (take k (outputs env opt w)) (map (encapsulate opt) outs)))"
proof -
  let ?from = "inputs env opt w"
  let ?to = "outputs env opt w"
  from assms(1) have split: "?from = take k ?from @ ?from ! k # drop (Suc k) ?from"
    by (simp add: id_take_nth_drop)
  from assms(3,4) have pk: "parse env opt (?from ! k) w = Inl (CompileError e)"
    by (simp add: parse_def sh_cat_def)
  show ?thesis
  proof (cases "flow1_f opt")
    case True
    let ?w1 = "sh_mkdir_p env (keys_of [ph_dirname env (o_to opt)]) w"
    from parse_all_first_error [OF assms(2) pk, of "drop (Suc k) ?from"] split
    have "parse_all env opt ?from ?w1 = Inl (CompileError e)"
      by (simp add: parse_all_mkdir)
    then have "toFile env opt ?from [o_to opt] ?w1 = (Thrown (CompileError e), ?w1)"
      by (rule toFile_Thrown)
    with True have "make env opt w = (Thrown (CompileError e), ?w1)"
      by (simp add: make_single)
    with True show ?thesis
      by (simp add: files_mkdir logged_mkdir)
  next
    case False
    let ?w1 = "sh_mkdir_p env (keys_of (map (ph_dirname env) ?to)) w"
    let ?w2 = "?w1\<lparr>files := written (files ?w1) (zip ?to (map (encapsulate opt) outs))\<rparr>"
    from assms(2) have a: "list_all2 (\<lambda>p out. parse env opt p ?w1 = Inr out) (take k ?from) outs"
      by (simp add: parse_mkdir)
    from pk have b: "parse env opt (?from ! k) ?w1 = Inl (CompileError e)"
      by (simp add: parse_mkdir)
    from assms(1) False have c: "length (take k ?from) < length ?to"
      by (simp add: length_outputs_mirrored)
    from assms(5) False have d: "\<forall>t\<in>set ?to. ph_dirname env t \<in> dirs ?w1"
      by (simp add: outputs_dirs_made)
    from assms(5) False split
    have "set ?to \<inter> set (take k ?from @ ?from ! k # drop (Suc k) ?from) = {}"
      by simp
    from toDir_from_first_error [OF a b c d this] split
    have "toDir env opt ?from ?to ?w1 = (Thrown (CompileError e), ?w2)"
      by (simp add: toDir_def)
    with False have m: "make env opt w = (Thrown (CompileError e), ?w2)"
      by (simp add: make_mirrored)
    from assms(2) have "length outs = k"
      using assms(1) by (auto dest: list_all2_lengthD)
    with zip_take_left [of "map (encapsulate opt) outs" ?to]
    have "zip ?to (map (encapsulate opt) outs) = zip (take k ?to) (map (encapsulate opt) outs)"
      by simp
    with m False show ?thesis
      by (simp add: files_mkdir logged_mkdir)
  qed
qed

theorem compile_error_aborts_witness:
  "\<exists>w'. make env_ex opt_mirror world_bad = (Thrown (CompileError (js ''empty'')), w') \<and>
     logged w' = logged world_bad \<and>
     files w' = (files world_bad)(js ''/o/a.js'' \<mapsto> js ''t(<a/>)'')"
proof -
  have k: "1 < length (inputs env_ex opt_mirror world_bad)"
    by (simp add: inputs_mirror_bad)
  have pre: "list_all2 (\<lambda>p out. parse env_ex opt_mirror p world_bad = Inr out)
      (take 1 (inputs env_ex opt_mirror world_bad)) [js ''t(<a/>)'']"
    by (simp add: inputs_mirror_bad)
      (simp add: parse_def sh_cat_def env_ex_def compile_ex_def strip_bom_def BOM_def
        world_bad_def js_def)
  have f: "files world_bad (inputs env_ex opt_mirror world_bad ! 1) = Some []"
    by (simp add: inputs_mirror_bad) (simp add: world_bad_def js_def)
  have c: "compile env_ex (strip_bom []) (o_compiler opt_mirror) = Inl (js ''empty'')"
    by (simp add: env_ex_def compile_ex_def strip_bom_def)
  have d: "\<not> flow1_f opt_mirror \<longrightarrow>
      set (outputs env_ex opt_mirror world_bad) \<inter> set (inputs env_ex opt_mirror world_bad) = {} \<and>
      proto_key \<notin> ph_dirname env_ex ` set (outputs env_ex opt_mirror world_bad)"
    by (simp add: inputs_mirror_bad outputs_mirror_bad)
      (simp add: env_ex_def dirname_ex_def proto_key_def js_def)
  have e: "encapsulate opt_mirror (js ''t(<a/>)'') = js ''t(<a/>)''"
    by (simp add: encapsulate_def opt_mirror_def copts_ex_def)
  from compile_error_aborts [OF k pre f c d] show ?thesis
    by (simp add: flow_ex outputs_mirror_bad written_def e)
qed

subsection \<open>The report\<close>



subsection \<open>Running a build twice\<close>

text \<open>
  C9. Let a pass complete, let a second pass find the same inputs as the first, and let no
  output path be among the input paths. Then the second pass completes too and leaves
  every file, and every directory, as the first pass left it.
\<close>

theorem make_idempotent:
  assumes "make env opt w = (Done, w1)"
    and "inputs env opt w1 = inputs env opt w"
    and "set (outputs env opt w) \<inter> set (inputs env opt w) = {}"
  shows "\<exists>w2. make env opt w1 = (Done, w2) \<and> files w2 = files w1 \<and> dirs w2 = dirs w1"
proof (cases "flow1_f opt")
  case True
  let ?ds = "keys_of [ph_dirname env (o_to opt)]"
  from make_single_Done_D [OF True assms(1)] obtain outs where
    a: "list_all2 (\<lambda>p out. parse env opt p w = Inr out) (inputs env opt w) outs" and
    f1: "files w1 = (files w)(o_to opt \<mapsto> encapsulate opt (join_nl outs))" and
    d1: "dirs w1 = dirs (sh_mkdir_p env ?ds w)" and
    m1: "ph_dirname env (o_to opt) \<in> dirs w1"
    by blast
  from m1 dirs_mkdir_mono [of w1 env ?ds]
  have made: "ph_dirname env (o_to opt) \<in> dirs (sh_mkdir_p env ?ds w1)"
    by blast
  from assms(3) True have "o_to opt \<notin> set (inputs env opt w)"
    by (simp add: outputs_def)
  then have "\<And>p. p \<in> set (inputs env opt w) \<Longrightarrow> parse env opt p w1 = parse env opt p w"
    by (intro parse_cong) (auto simp add: f1)
  with a have "list_all2 (\<lambda>p out. parse env opt p w1 = Inr out) (inputs env opt w1) outs"
    by (auto simp add: assms(2) elim!: list.rel_mono_strong)
  from make_single_Done_gen [OF True this made] obtain w2 where
    "make env opt w1 = (Done, w2)" and
    "files w2 = (files w1)(o_to opt \<mapsto> encapsulate opt (join_nl outs))" and
    "dirs w2 = dirs (sh_mkdir_p env ?ds w1)"
    by blast
  with f1 dirs_mkdir_absorb [OF d1] show ?thesis
    by simp
next
  case False
  let ?to = "outputs env opt w"
  let ?ds = "keys_of (map (ph_dirname env) ?to)"
  from make_mirrored_Done_D [OF False assms(1,3)] obtain outs where
    a: "list_all2 (\<lambda>p out. parse env opt p w = Inr out) (inputs env opt w) outs" and
    f1: "files w1 = written (files w) (zip ?to (map (encapsulate opt) outs))" and
    d1: "dirs w1 = dirs (sh_mkdir_p env ?ds w)" and
    m1: "\<forall>t\<in>set ?to. ph_dirname env t \<in> dirs w1"
    by blast
  have to1: "outputs env opt w1 = ?to"
    using assms(2) by (rule outputs_cong)
  from m1 dirs_mkdir_mono [of w1 env ?ds]
  have made: "\<forall>t\<in>set (outputs env opt w1). ph_dirname env t \<in>
      dirs (sh_mkdir_p env (keys_of (map (ph_dirname env) (outputs env opt w1))) w1)"
    unfolding to1 by blast
  have "\<And>p. p \<in> set (inputs env opt w) \<Longrightarrow> parse env opt p w1 = parse env opt p w"
  proof (rule parse_cong)
    fix p assume "p \<in> set (inputs env opt w)"
    with assms(3) have "p \<notin> set ?to" by blast
    then show "files w1 p = files w p"
      by (simp add: f1 written_zip_other)
  qed
  with a have a1: "list_all2 (\<lambda>p out. parse env opt p w1 = Inr out) (inputs env opt w1) outs"
    by (auto simp add: assms(2) elim!: list.rel_mono_strong)
  from assms(2,3) to1 have "set (outputs env opt w1) \<inter> set (inputs env opt w1) = {}"
    by simp
  from make_mirrored_Done_gen [OF False a1 this made] obtain w2 where
    "make env opt w1 = (Done, w2)" and
    "files w2 = written (files w1) (zip ?to (map (encapsulate opt) outs))" and
    "dirs w2 = dirs (sh_mkdir_p env ?ds w1)"
    by (auto simp add: to1)
  with f1 dirs_mkdir_absorb [OF d1] show ?thesis
    by (simp add: written_idem)
qed

theorem make_idempotent_witness:
  "\<exists>w2. make env_ex opt_mirror (snd (make env_ex opt_mirror world_ok)) = (Done, w2) \<and>
     files w2 = files (snd (make env_ex opt_mirror world_ok)) \<and>
     dirs w2 = dirs (snd (make env_ex opt_mirror world_ok))"
proof -
  let ?w1 = "snd (make env_ex opt_mirror world_ok)"
  from make_mirrored_Done [OF flow_ex(3) parse_mirror_ok disjoint_mirror_ok dirs_mirror_ok]
  have m: "make env_ex opt_mirror world_ok = (Done, ?w1)"
    and f: "files ?w1 = written (files world_ok)
       (zip (outputs env_ex opt_mirror world_ok)
          (map (encapsulate opt_mirror) [js ''t(<a/>)'', js ''t(<b/>)'']))"
    by auto
  have "files ?w1 (js ''/s/a.tag'') = files world_ok (js ''/s/a.tag'')"
    "files ?w1 (js ''/s/b.tag'') = files world_ok (js ''/s/b.tag'')"
    unfolding f by (rule written_zip_other; simp add: outputs_mirror_ok js_def)+
  then have i: "inputs env_ex opt_mirror ?w1 = inputs env_ex opt_mirror world_ok"
    by (simp add: inputs_def flow_ex) (simp add: env_ex_def find_ex_def opt_mirror_def js_append)
  from make_idempotent [OF m i disjoint_mirror_ok] show ?thesis .
qed

subsection \<open>The byte-order mark\<close>

text \<open>
  C6. Exactly one leading byte-order mark is stripped before the compiler is called: for a
  file whose text is the mark followed by \<open>text\<close>, \<open>parse\<close> gives what the compiler gives
  on \<open>text\<close>; so it gives the same as for a file that holds \<open>text\<close> itself (a text that
  does not begin with a further mark).
\<close>

theorem bom_stripped:
  assumes "files w p = Some (BOM # text)"
  shows "strip_bom (BOM # text) = text \<and>
     parse env opt p w =
       (case compile env text (o_compiler opt) of
          Inl e \<Rightarrow> Inl (CompileError e)
        | Inr out \<Rightarrow> Inr out) \<and>
     (files w' p' = Some text \<longrightarrow> take 1 text \<noteq> [BOM] \<longrightarrow>
        parse env opt p w = parse env opt p' w')"
proof -
  have s: "strip_bom (BOM # text) = text"
    by (simp add: strip_bom_def)
  have "take 1 text \<noteq> [BOM] \<Longrightarrow> strip_bom text = text"
    by (cases "text") (simp_all add: strip_bom_def)
  with assms s show ?thesis
    by (simp add: parse_def sh_cat_def)
qed

theorem bom_stripped_witness:
  "files world_bom (js ''/s/a.tag'') = Some (BOM # js ''<a/>'') \<and>
   files world_ok (js ''/s/a.tag'') = Some (js ''<a/>'') \<and>
   take 1 (js ''<a/>'') \<noteq> [BOM] \<and>
   parse env_ex opt_mirror (js ''/s/a.tag'') world_bom =
     parse env_ex opt_mirror (js ''/s/a.tag'') world_ok"
proof -
  have a: "files world_bom (js ''/s/a.tag'') = Some (BOM # js ''<a/>'')"
    by (simp add: world_bom_def js_def)
  have b: "files world_ok (js ''/s/a.tag'') = Some (js ''<a/>'')"
    by (simp add: world_ok_def js_def)
  have c: "take 1 (js ''<a/>'') \<noteq> [BOM]"
    by (simp add: js_def BOM_def)
  from bom_stripped [OF a, of env_ex opt_mirror world_ok "js ''/s/a.tag''"] a b c
  show ?thesis by blast
qed

subsection \<open>Watching\<close>

lemma chokidar_scan: "concat (map (chokidar True \<circ> Scanned) ps) = []"
  by (induction ps) simp_all

lemma chokidar_changes: "concat (map (chokidar True \<circ> Changed) qs) = replicate (length qs) OnAll"
  by (induction qs) simp_all

lemma listeners_All: "listeners env opt glob (replicate n OnAll) w = rebuilds env opt n w"
  by (induction n arbitrary: w) (auto split: prod.splits outcome.splits)

text \<open>
  C5. Let the watcher see the paths of its initial scan, then the end of the scan, then
  changes on the glob. Then \<open>watch\<close> runs one pass first; if it completes, the paths of
  the initial scan trigger nothing, the end of the scan logs that watching has started,
  and then every change runs one complete pass of \<open>make\<close> on the world as it is then, one
  after the other.
\<close>

theorem watch_one_build_per_change:
  "watch env opt (map Scanned ps @ ScanDone # map Changed qs) w =
     (case make env opt w of
        (Thrown e, w') \<Rightarrow> (Thrown e, w')
      | (Done, w') \<Rightarrow>
          rebuilds env opt (length qs)
            (log (js ''Watching '' @ toRelative env (glob_of env opt)) w'))"
proof -
  have emitted: "concat (map (chokidar True) (map Scanned ps @ ScanDone # map Changed qs)) =
      OnReady # replicate (length qs) OnAll"
    by (simp add: chokidar_scan chokidar_changes)
  show ?thesis
  proof (cases "make env opt w")
    case (Pair r w')
    show ?thesis
    proof (cases r)
      case Done
      with Pair show ?thesis
        by (simp only: watch_def init_def Let_def emitted)
          (simp add: listeners_All)
    next
      case (Thrown e)
      with Pair show ?thesis
        by (simp add: watch_def init_def)
    qed
  qed
qed

theorem watch_one_build_per_change_witness:
  "\<exists>w3. watch env_ex opt_mirror
          [Scanned (js ''/s/a.tag''), Scanned (js ''/s/b.tag''), ScanDone, Changed (js ''/s/a.tag'')]
          world_ok = (Done, w3) \<and>
        logged w3 =
          [js ''s/a.tag -> o/a.js'', js ''s/b.tag -> o/b.js'', js ''Watching s/**/*.tag'',
           js ''s/a.tag -> o/a.js'', js ''s/b.tag -> o/b.js'']"
proof -
  have s: "\<not> silent (o_compiler opt_mirror)"
    by (simp add: opt_mirror_def copts_ex_def)
  have n: "[] \<notin> set (outputs env_ex opt_mirror world_ok)"
    by (simp add: outputs_mirror_ok js_def)
  from make_mirrored_Done [OF flow_ex(3) parse_mirror_ok disjoint_mirror_ok dirs_mirror_ok]
  obtain w1 where m1: "make env_ex opt_mirror world_ok = (Done, w1)"
    and f1: "files w1 = written (files world_ok)
       (zip (outputs env_ex opt_mirror world_ok)
          (map (encapsulate opt_mirror) [js ''t(<a/>)'', js ''t(<b/>)'']))"
    by blast
  let ?w1' = "log (js ''Watching '' @ toRelative env_ex (glob_of env_ex opt_mirror)) w1"
  from make_mirrored_logged [OF m1 s flow_ex(3) n]
  have l1: "logged w1 = [js ''s/a.tag -> o/a.js'', js ''s/b.tag -> o/b.js'']"
    by (simp add: flow_ex inputs_mirror_ok outputs_mirror_ok lines_mirror_ok logged_world_ok)
  have same: "files ?w1' (js ''/s/a.tag'') = files world_ok (js ''/s/a.tag'')"
    "files ?w1' (js ''/s/b.tag'') = files world_ok (js ''/s/b.tag'')"
    unfolding files_log f1 by (rule written_zip_other; simp add: outputs_mirror_ok js_def)+
  then have i: "inputs env_ex opt_mirror ?w1' = inputs env_ex opt_mirror world_ok"
    by (simp add: inputs_def flow_ex) (simp add: env_ex_def find_ex_def opt_mirror_def js_append)
  have o: "outputs env_ex opt_mirror ?w1' = outputs env_ex opt_mirror world_ok"
    using i by (rule outputs_cong)
  have "\<And>p. p \<in> set (inputs env_ex opt_mirror world_ok) \<Longrightarrow>
      parse env_ex opt_mirror p ?w1' = parse env_ex opt_mirror p world_ok"
    using same by (intro parse_cong) (auto simp add: inputs_mirror_ok)
  with parse_mirror_ok
  have p2: "list_all2 (\<lambda>p out. parse env_ex opt_mirror p ?w1' = Inr out)
      (inputs env_ex opt_mirror ?w1') [js ''t(<a/>)'', js ''t(<b/>)'']"
    by (auto simp add: i elim!: list.rel_mono_strong)
  from disjoint_mirror_ok i o
  have d2: "set (outputs env_ex opt_mirror ?w1') \<inter> set (inputs env_ex opt_mirror ?w1') = {}"
    by simp
  from dirs_mirror_ok o
  have k2: "proto_key \<notin> ph_dirname env_ex ` set (outputs env_ex opt_mirror ?w1')"
    by simp
  from make_mirrored_Done [OF flow_ex(3) p2 d2 k2]
  obtain w2 where m2: "make env_ex opt_mirror ?w1' = (Done, w2)"
    by blast
  from n o have n2: "[] \<notin> set (outputs env_ex opt_mirror ?w1')"
    by simp
  from make_mirrored_logged [OF m2 s flow_ex(3) n2]
  have l2: "logged w2 = logged ?w1' @ [js ''s/a.tag -> o/a.js'', js ''s/b.tag -> o/b.js'']"
    by (simp add: flow_ex i o inputs_mirror_ok outputs_mirror_ok lines_mirror_ok)
  from watch_one_build_per_change [of env_ex opt_mirror "[js ''/s/a.tag'', js ''/s/b.tag'']"
      "[js ''/s/a.tag'']" world_ok]
  have "watch env_ex opt_mirror
      [Scanned (js ''/s/a.tag''), Scanned (js ''/s/b.tag''), ScanDone, Changed (js ''/s/a.tag'')]
      world_ok = (Done, w2)"
    by (simp add: m1 m2)
  moreover have "logged w2 =
      [js ''s/a.tag -> o/a.js'', js ''s/b.tag -> o/b.js'', js ''Watching s/**/*.tag'',
       js ''s/a.tag -> o/a.js'', js ''s/b.tag -> o/b.js'']"
    by (simp add: l2 logged_log l1 watching_line)
  ultimately show ?thesis
    by blast
qed

end
